theory Spec2Isabelle
  imports Complex_Main
begin

section \<open>Values and messages\<close>

text \<open>
  The values that cross the bridge are JavaScript values. \<open>JUndefined\<close> is the value
  \<^verbatim>\<open>undefined\<close> (what a handler with no \<^verbatim>\<open>return\<close> yields, what an omitted option
  reads as); the other constructors are the JSON values. A string is a list of
  characters, with text beyond ASCII written as its UTF-8 bytes. Finite numbers are
  rationals; the non-finite numbers of JavaScript are not values of this type.
\<close>

datatype jsval =
    JUndefined
  | JNull
  | JBool bool
  | JNum rat
  | JStr string
  | JArr "jsval list"
  | JObj "(string \<times> jsval) list"

text \<open>
  The wire shape of a message: \<^verbatim>\<open>{ command, data?, callback? }\<close>. An absent field is
  \<open>None\<close>.
\<close>

record message =
  command :: string
  data :: "jsval list option"
  callback :: "string option"

datatype error = Error string | TypeError string | SyntaxError string

text \<open>
  What awaiting a call yields: a value, a thrown error (a rejected promise), or nothing
  at all when the awaited promise never settles.
\<close>

datatype 'a outcome = Returns 'a | Throws error | Never

section \<open>The dispatcher (src/panels/CreateProjectPanel.ts)\<close>

text \<open>
  A handler is called with the positional arguments and acts on the services of the
  editor host, the state \<open>'w\<close>. The panel records, next to that state, the messages
  handed to \<^verbatim>\<open>this._panel.webview.postMessage\<close> (oldest first) and, as a trace, the
  handler calls made so far with their arguments.
\<close>

type_synonym 'w handler = "jsval list \<Rightarrow> 'w \<Rightarrow> jsval outcome \<times> 'w"

record 'w panel =
  world :: 'w
  posted :: "message list"
  invoked :: "(string \<times> jsval list) list"

text \<open>JavaScript's truthiness of an optional string: absent and empty are falsy.\<close>

definition truthy :: "string option \<Rightarrow> bool" where
  "truthy s = (case s of None \<Rightarrow> False | Some t \<Rightarrow> t \<noteq> [])"

text \<open>
  The text before the command name in the error of an unknown command, five CJK
  characters and a space, as UTF-8 bytes.
\<close>

definition not_found_text :: string where
  "not_found_text =
     [CHR 0xE6, CHR 0x89, CHR 0xBE, CHR 0xE4, CHR 0xB8, CHR 0x8D, CHR 0xE5, CHR 0x88, CHR 0xB0,
      CHR 0xE5, CHR 0x91, CHR 0xBD, CHR 0xE4, CHR 0xBB, CHR 0xA4, CHR 0x20]"

text \<open>
  The listener of \<^verbatim>\<open>webview.onDidReceiveMessage\<close>, with the handler map it closes over
  as a parameter. \<^verbatim>\<open>data = []\<close> in the destructuring gives the empty list for an
  absent field. An unknown command throws before anything else happens. Otherwise the
  handler is called with the spread arguments and awaited; only when it returns, and the
  callback is truthy, one message is posted.
\<close>

definition onDidReceiveMessage ::
  "(string \<rightharpoonup> 'w handler) \<Rightarrow> message \<Rightarrow> 'w panel \<Rightarrow> unit outcome \<times> 'w panel" where
  "onDidReceiveMessage handler_map message st =
     (let args = (case data message of None \<Rightarrow> [] | Some d \<Rightarrow> d) in
      case handler_map (command message) of
        None \<Rightarrow> (Throws (Error (not_found_text @ command message)), st)
      | Some h \<Rightarrow>
          (let (r, w) = h args (world st);
               st1 = st\<lparr>world := w, invoked := invoked st @ [(command message, args)]\<rparr>
           in case r of
                Throws e \<Rightarrow> (Throws e, st1)
              | Never \<Rightarrow> (Never, st1)
              | Returns res \<Rightarrow>
                  if truthy (callback message)
                  then (Returns (),
                        st1\<lparr>posted := posted st1 @
                          [\<lparr>command = the (callback message), data = Some [res], callback = None\<rparr>]\<rparr>)
                  else (Returns (), st1)))"

subsection \<open>The handlers registered by the panel\<close>

text \<open>
  The host services the handlers \<^verbatim>\<open>hello\<close> and \<^verbatim>\<open>selectPath\<close> use: the texts
  shown by \<^verbatim>\<open>window.showInformationMessage\<close>, and what \<^verbatim>\<open>window.showOpenDialog\<close>
  resolves with (the paths of the chosen URIs, or \<open>None\<close> when the dialog is dismissed).
\<close>

record vscode =
  information_messages :: "jsval list"
  open_dialog :: "string list option"

text \<open>A positional parameter reads \<^verbatim>\<open>undefined\<close> when the argument is missing.\<close>

definition first_arg :: "jsval list \<Rightarrow> jsval" where
  "first_arg args = (case args of [] \<Rightarrow> JUndefined | x # _ \<Rightarrow> x)"

definition hello :: "('a vscode_scheme) handler" where
  "hello args w =
     (Returns JUndefined, w\<lparr>information_messages := information_messages w @ [first_arg args]\<rparr>)"

text \<open>
  \<^verbatim>\<open>Uri.parse(p).fsPath\<close> is a service of the host, the parameter \<open>fsPath\<close>. Reading
  \<^verbatim>\<open>res[0].path\<close> of an empty selection throws.
\<close>

definition selectPath :: "(string \<Rightarrow> string) \<Rightarrow> ('a vscode_scheme) handler" where
  "selectPath fsPath args w =
     (let w1 = w\<lparr>information_messages := information_messages w @ [first_arg args]\<rparr> in
      case open_dialog w1 of
        None \<Rightarrow> (Returns JNull, w1)
      | Some [] \<Rightarrow> (Throws (TypeError ''Cannot read properties of undefined''), w1)
      | Some (p # _) \<Rightarrow> (Returns (JStr (fsPath p)), w1))"

text \<open>
  The map built by \<^verbatim>\<open>_setWebviewMessageListener\<close>. The handler registered for
  \<^verbatim>\<open>createProject\<close> enters as a parameter; \<open>createProject\<close> below gives it up to
  the host services it drives (file system, terminal, folder opening).
\<close>

definition panel_map ::
  "(string \<Rightarrow> string) \<Rightarrow> ('a vscode_scheme) handler \<Rightarrow> (string \<rightharpoonup> ('a vscode_scheme) handler)" where
  "panel_map fsPath createProject =
     [''hello'' \<mapsto> hello, ''selectPath'' \<mapsto> selectPath fsPath, ''createProject'' \<mapsto> createProject]"

definition fresh_panel :: "vscode panel" where
  "fresh_panel =
     \<lparr>world = \<lparr>information_messages = [], open_dialog = None\<rparr>, posted = [], invoked = []\<rparr>"

text \<open>
  \<^verbatim>\<open>createProject\<close> starts by reading \<^verbatim>\<open>data.location\<close> of its first parameter. Called
  with no argument, or with \<^verbatim>\<open>null\<close>, that read throws before anything else happens.
  What follows (resolving the path, looking at the directory, asking before removing
  it, running the terminal, opening the folder, disposing of the panel) only drives
  services of the host and is the parameter \<open>rest\<close>, applied to the first argument.
\<close>

definition createProject :: "(jsval \<Rightarrow> 'w \<Rightarrow> jsval outcome \<times> 'w) \<Rightarrow> 'w handler" where
  "createProject rest args w =
     (case first_arg args of
        JUndefined \<Rightarrow> (Throws (TypeError ''Cannot read properties of undefined''), w)
      | JNull \<Rightarrow> (Throws (TypeError ''Cannot read properties of null''), w)
      | _ \<Rightarrow> rest (first_arg args) w)"

section \<open>The channel between the two sides\<close>

text \<open>
  The channel belongs to the editor host. It carries JSON: the wrapper's own comment
  asks for a message that is JSON serializable. \<open>json_copy\<close> is what a value becomes
  when it is written as JSON and read back: \<^verbatim>\<open>undefined\<close> in an array arrives as
  \<^verbatim>\<open>null\<close>, a property whose value is \<^verbatim>\<open>undefined\<close> is left out.
\<close>

fun json_copy :: "jsval \<Rightarrow> jsval" where
  "json_copy (JArr xs) = JArr (map (\<lambda>x. if x = JUndefined then JNull else json_copy x) xs)"
| "json_copy (JObj ps) =
     JObj (map (\<lambda>p. (fst p, json_copy (snd p))) (filter (\<lambda>p. snd p \<noteq> JUndefined) ps))"
| "json_copy v = v"

definition in_array :: "jsval \<Rightarrow> jsval" where
  "in_array x = (if x = JUndefined then JNull else json_copy x)"

text \<open>The message as it arrives: an absent field stays absent.\<close>

definition transmit :: "message \<Rightarrow> message" where
  "transmit m =
     \<lparr>command = command m, data = map_option (map in_array) (data m), callback = callback m\<rparr>"

text \<open>A value is JSON serializable when \<^verbatim>\<open>undefined\<close> occurs nowhere in it.\<close>

fun json_serializable :: "jsval \<Rightarrow> bool" where
  "json_serializable JUndefined = False"
| "json_serializable (JArr xs) = list_all json_serializable xs"
| "json_serializable (JObj ps) = list_all (\<lambda>p. json_serializable (snd p)) ps"
| "json_serializable v = True"

section \<open>The wrapper in the webview (webview-ui/src/utilities/vscode.ts)\<close>

subsection \<open>The page\<close>

text \<open>
  The state of the webview page. \<open>acquireVsCodeApi\<close> is the global of that name:
  \<open>None\<close> when \<^verbatim>\<open>typeof acquireVsCodeApi\<close> is not \<^verbatim>\<open>'function'\<close>, otherwise the
  handle that calling it returns; \<open>acquire_calls\<close> counts those calls. \<open>vsCodeApi\<close>
  is the field of the singleton \<^verbatim>\<open>vscode\<close>. \<open>sent\<close> are the messages handed to the
  host channel and \<open>console\<close> the ones logged instead, oldest first. \<open>listeners\<close> are
  the \<^verbatim>\<open>'message'\<close> listeners of the window in the order they were added. A promise is
  a number; \<open>promises\<close> gives its settlement, \<open>None\<close> while it is pending.
\<close>

datatype WebviewApi = WebviewApi

datatype settlement = Fulfilled jsval | Rejected error

text \<open>
  The listener closure of one \<^verbatim>\<open>invoke\<close> call: the \<^verbatim>\<open>id\<close> it compares with and the
  promise its \<^verbatim>\<open>resolve\<close> settles.
\<close>

datatype listener = Listener (token: string) (promise: nat)

record page =
  acquireVsCodeApi :: "WebviewApi option"
  acquire_calls :: nat
  vsCodeApi :: "WebviewApi option"
  sent :: "message list"
  console :: "message list"
  listeners :: "listener list"
  promises :: "nat \<rightharpoonup> settlement"
  next_promise :: nat
  localStorage :: "string \<rightharpoonup> string"

text \<open>The page as the module starts to load, with whatever the local storage holds.\<close>

definition load_page :: "WebviewApi option \<Rightarrow> (string \<rightharpoonup> string) \<Rightarrow> page" where
  "load_page g store =
     \<lparr>acquireVsCodeApi = g, acquire_calls = 0, vsCodeApi = None, sent = [], console = [],
      listeners = [], promises = Map.empty, next_promise = 0, localStorage = store\<rparr>"

text \<open>The constructor, run once for the exported singleton.\<close>

definition new_VSCodeAPIWrapper :: "page \<Rightarrow> page" where
  "new_VSCodeAPIWrapper s =
     (case acquireVsCodeApi s of
        Some api \<Rightarrow> s\<lparr>vsCodeApi := Some api, acquire_calls := Suc (acquire_calls s)\<rparr>
      | None \<Rightarrow> s)"

definition postMessage :: "message \<Rightarrow> page \<Rightarrow> page" where
  "postMessage message s =
     (case vsCodeApi s of
        Some api \<Rightarrow> s\<lparr>sent := sent s @ [message]\<rparr>
      | None \<Rightarrow> s\<lparr>console := console s @ [message]\<rparr>)"

subsection \<open>Promises and listeners\<close>

text \<open>\<^verbatim>\<open>new Promise\<close>: the next number, pending.\<close>

definition new_promise :: "page \<Rightarrow> nat \<times> page" where
  "new_promise s =
     (next_promise s,
      s\<lparr>next_promise := Suc (next_promise s), promises := (promises s)(next_promise s := None)\<rparr>)"

text \<open>Settling a promise that is already settled changes nothing.\<close>

definition settle :: "nat \<Rightarrow> settlement \<Rightarrow> page \<Rightarrow> page" where
  "settle p x s =
     (case promises s p of
        None \<Rightarrow> s\<lparr>promises := (promises s)(p \<mapsto> x)\<rparr>
      | Some _ \<Rightarrow> s)"

definition resolve :: "nat \<Rightarrow> jsval \<Rightarrow> page \<Rightarrow> page" where
  "resolve p v s = settle p (Fulfilled v) s"

text \<open>The window keeps a listener once; removing takes it out.\<close>

definition addEventListener :: "listener \<Rightarrow> page \<Rightarrow> page" where
  "addEventListener l s =
     (if l \<in> set (listeners s) then s else s\<lparr>listeners := listeners s @ [l]\<rparr>)"

definition removeEventListener :: "listener \<Rightarrow> page \<Rightarrow> page" where
  "removeEventListener l s = s\<lparr>listeners := removeAll l (listeners s)\<rparr>"

subsection \<open>The correlation token\<close>

text \<open>
  \<^verbatim>\<open>Date.now() + '_' + Math.random()\<close>. The clock sample is an integer number of
  milliseconds and prints in decimal; the random fraction enters as the text it prints
  as.
\<close>

definition digit :: "nat \<Rightarrow> char" where
  "digit d = char_of (48 + d)"

function decimal :: "nat \<Rightarrow> string" where
  "decimal n = (if n < 10 then [digit n] else decimal (n div 10) @ [digit (n mod 10)])"
  by pat_completeness auto
termination
  by (relation "measure id") auto

definition number_text :: "int \<Rightarrow> string" where
  "number_text i = (if i < 0 then CHR ''-'' # decimal (nat (- i)) else decimal (nat i))"

definition new_id :: "int \<Rightarrow> string \<Rightarrow> string" where
  "new_id now random = number_text now @ ''_'' @ random"

subsection \<open>invoke\<close>

record options =
  opt_command :: string
  opt_default :: jsval
  opt_args :: "jsval list option"

text \<open>
  The listener of one call, run on a message event: on a match it resolves with
  \<^verbatim>\<open>data.data[0]\<close> and removes itself; reading index 0 of an absent \<^verbatim>\<open>data\<close> throws
  before either happens.
\<close>

definition run_listener :: "listener \<Rightarrow> message \<Rightarrow> page \<Rightarrow> page" where
  "run_listener l m s =
     (if command m = token l
      then (case data m of
              None \<Rightarrow> s
            | Some d \<Rightarrow> removeEventListener l (resolve (promise l) (first_arg d) s))
      else s)"

text \<open>
  A message event on the window runs the listeners that were attached when it fired, in
  order. A listener here removes nothing but itself.
\<close>

definition message_event :: "message \<Rightarrow> page \<Rightarrow> page" where
  "message_event m s = fold (\<lambda>l. run_listener l m) (listeners s) s"

text \<open>
  \<^verbatim>\<open>invoke\<close> returns its promise. The executor runs at once: without the global
  function it resolves with the default; otherwise it makes the id from the clock and
  the random text, adds the listener and posts the request through the singleton.
\<close>

definition invoke :: "options \<Rightarrow> int \<Rightarrow> string \<Rightarrow> page \<Rightarrow> nat \<times> page" where
  "invoke opts now random s =
     (let (p, s1) = new_promise s in
      if acquireVsCodeApi s1 = None then (p, resolve p (opt_default opts) s1)
      else
        (let ident = new_id now random;
             s2 = addEventListener (Listener ident p) s1
         in (p, postMessage
                  \<lparr>command = opt_command opts, data = opt_args opts, callback = Some ident\<rparr> s2)))"

subsection \<open>getState and setState\<close>

text \<open>
  \<^verbatim>\<open>JSON.stringify\<close> and \<^verbatim>\<open>JSON.parse\<close> are the platform's: \<open>stringify\<close> gives the
  text, or \<open>None\<close> for \<^verbatim>\<open>undefined\<close>; \<open>parse\<close> gives the value or throws. With a
  host channel both operations are \<^verbatim>\<open>invoke\<close> calls, and the promise returned is the
  one of that call. Without it they work on the local storage; \<^verbatim>\<open>setItem\<close> stores the
  text \<^verbatim>\<open>undefined\<close> when there is nothing to stringify.
\<close>

definition getState ::
  "(string \<Rightarrow> error + jsval) \<Rightarrow> string \<Rightarrow> int \<Rightarrow> string \<Rightarrow> page \<Rightarrow> nat \<times> page" where
  "getState parse key now random s =
     (case vsCodeApi s of
        Some api \<Rightarrow>
          invoke \<lparr>opt_command = ''getState'', opt_default = JUndefined, opt_args = Some [JStr key]\<rparr>
            now random s
      | None \<Rightarrow>
          (let (p, s1) = new_promise s in
           case localStorage s1 key of
             None \<Rightarrow> (p, settle p (Fulfilled JUndefined) s1)
           | Some state \<Rightarrow>
               if state \<noteq> []
               then (case parse state of
                       Inl e \<Rightarrow> (p, settle p (Rejected e) s1)
                     | Inr v \<Rightarrow> (p, settle p (Fulfilled v) s1))
               else (p, settle p (Fulfilled JUndefined) s1)))"

definition setState ::
  "(jsval \<Rightarrow> string option) \<Rightarrow> string \<Rightarrow> jsval \<Rightarrow> int \<Rightarrow> string \<Rightarrow> page \<Rightarrow> nat \<times> page" where
  "setState stringify key newState now random s =
     (case vsCodeApi s of
        Some api \<Rightarrow>
          invoke \<lparr>opt_command = ''setState'', opt_default = JUndefined,
                  opt_args = Some [JStr key, newState]\<rparr> now random s
      | None \<Rightarrow>
          (let (p, s1) = new_promise s;
               text = (case stringify newState of None \<Rightarrow> ''undefined'' | Some t \<Rightarrow> t);
               s2 = s1\<lparr>localStorage := (localStorage s1)(key \<mapsto> text)\<rparr>
           in (p, settle p (Fulfilled JUndefined) s2)))"

subsection \<open>Histories\<close>

text \<open>
  What can happen on the page once the singleton exists: a call of one of its methods,
  or a message event on the window.
\<close>

datatype event =
    PostMessage message
  | Invoke options int string
  | GetState string int string
  | SetState string jsval int string
  | MessageEvent message

definition step ::
  "(jsval \<Rightarrow> string option) \<Rightarrow> (string \<Rightarrow> error + jsval) \<Rightarrow> event \<Rightarrow> page \<Rightarrow> page" where
  "step stringify parse e s =
     (case e of
        PostMessage m \<Rightarrow> postMessage m s
      | Invoke opts now random \<Rightarrow> snd (invoke opts now random s)
      | GetState key now random \<Rightarrow> snd (getState parse key now random s)
      | SetState key v now random \<Rightarrow> snd (setState stringify key v now random s)
      | MessageEvent m \<Rightarrow> message_event m s)"

definition run ::
  "(jsval \<Rightarrow> string option) \<Rightarrow> (string \<Rightarrow> error + jsval) \<Rightarrow> event list \<Rightarrow> page \<Rightarrow> page" where
  "run stringify parse es s = fold (step stringify parse) es s"

text \<open>
  The clock and random samples a history draws, one pair for each call that can reach
  \<^verbatim>\<open>invoke\<close>.
\<close>

fun sample :: "event \<Rightarrow> (int \<times> string) list" where
  "sample (Invoke opts now random) = [(now, random)]"
| "sample (GetState key now random) = [(now, random)]"
| "sample (SetState key v now random) = [(now, random)]"
| "sample e = []"

definition samples :: "event list \<Rightarrow> (int \<times> string) list" where
  "samples es = concat (map sample es)"

subsection \<open>Predicates used in the proofs\<close>

text \<open>A listener fires on a message when the command is its id and the data can be read.\<close>

definition fires :: "message \<Rightarrow> listener \<Rightarrow> bool" where
  "fires m l = (command m = token l \<and> data m \<noteq> None)"

text \<open>
  What every history keeps: each attached listener has a promise of its own, already
  handed out and still pending.
\<close>

definition page_ok :: "page \<Rightarrow> bool" where
  "page_ok s =
     (distinct (map promise (listeners s)) \<and>
      list_all (\<lambda>l. promise l < next_promise s \<and> promises s (promise l) = None) (listeners s))"

section \<open>Auxiliary facts\<close>

subsection \<open>The dispatcher when the handler returns\<close>

lemma dispatch_returns:
  assumes "handler_map (command m) = Some h"
    and "h (case data m of None \<Rightarrow> [] | Some d \<Rightarrow> d) (world st) = (Returns res, w)"
    and "callback m = Some t" and "t \<noteq> []"
  shows "onDidReceiveMessage handler_map m st =
           (Returns (),
            st\<lparr>world := w,
               invoked := invoked st @ [(command m, case data m of None \<Rightarrow> [] | Some d \<Rightarrow> d)],
               posted := posted st @ [\<lparr>command = t, data = Some [res], callback = None\<rparr>]\<rparr>)"
  using assms by (simp add: onDidReceiveMessage_def truthy_def Let_def)

subsection \<open>What each operation of the page leaves alone\<close>

lemma settle_frame [simp]:
  "acquireVsCodeApi (settle p x s) = acquireVsCodeApi s"
  "vsCodeApi (settle p x s) = vsCodeApi s"
  "acquire_calls (settle p x s) = acquire_calls s"
  "sent (settle p x s) = sent s"
  "console (settle p x s) = console s"
  "listeners (settle p x s) = listeners s"
  "next_promise (settle p x s) = next_promise s"
  "localStorage (settle p x s) = localStorage s"
  by (simp_all add: settle_def split: option.split)

lemma settle_promises:
  "promises (settle p x s) q =
     (if q = p \<and> promises s p = None then Some x else promises s q)"
  by (simp add: settle_def split: option.split)

lemma resolve_frame [simp]:
  "acquireVsCodeApi (resolve p v s) = acquireVsCodeApi s"
  "vsCodeApi (resolve p v s) = vsCodeApi s"
  "acquire_calls (resolve p v s) = acquire_calls s"
  "sent (resolve p v s) = sent s"
  "console (resolve p v s) = console s"
  "listeners (resolve p v s) = listeners s"
  "next_promise (resolve p v s) = next_promise s"
  "localStorage (resolve p v s) = localStorage s"
  by (simp_all add: resolve_def)

lemma resolve_promises:
  "promises (resolve p v s) q =
     (if q = p \<and> promises s p = None then Some (Fulfilled v) else promises s q)"
  by (simp add: resolve_def settle_promises)

lemma removeEventListener_frame [simp]:
  "acquireVsCodeApi (removeEventListener l s) = acquireVsCodeApi s"
  "vsCodeApi (removeEventListener l s) = vsCodeApi s"
  "acquire_calls (removeEventListener l s) = acquire_calls s"
  "sent (removeEventListener l s) = sent s"
  "console (removeEventListener l s) = console s"
  "promises (removeEventListener l s) = promises s"
  "next_promise (removeEventListener l s) = next_promise s"
  "localStorage (removeEventListener l s) = localStorage s"
  "listeners (removeEventListener l s) = removeAll l (listeners s)"
  by (simp_all add: removeEventListener_def)

lemma addEventListener_frame [simp]:
  "acquireVsCodeApi (addEventListener l s) = acquireVsCodeApi s"
  "vsCodeApi (addEventListener l s) = vsCodeApi s"
  "acquire_calls (addEventListener l s) = acquire_calls s"
  "sent (addEventListener l s) = sent s"
  "console (addEventListener l s) = console s"
  "promises (addEventListener l s) = promises s"
  "next_promise (addEventListener l s) = next_promise s"
  "localStorage (addEventListener l s) = localStorage s"
  by (simp_all add: addEventListener_def)

lemma addEventListener_listeners:
  "listeners (addEventListener l s) = (if l \<in> set (listeners s) then listeners s else listeners s @ [l])"
  by (simp add: addEventListener_def)

lemma postMessage_frame [simp]:
  "acquireVsCodeApi (postMessage m s) = acquireVsCodeApi s"
  "vsCodeApi (postMessage m s) = vsCodeApi s"
  "acquire_calls (postMessage m s) = acquire_calls s"
  "listeners (postMessage m s) = listeners s"
  "promises (postMessage m s) = promises s"
  "next_promise (postMessage m s) = next_promise s"
  "localStorage (postMessage m s) = localStorage s"
  by (simp_all add: postMessage_def split: option.split)

lemma postMessage_sent:
  "sent (postMessage m s) = (if vsCodeApi s = None then sent s else sent s @ [m])"
  "console (postMessage m s) = (if vsCodeApi s = None then console s @ [m] else console s)"
  by (simp_all add: postMessage_def split: option.split)

lemma run_listener_frame [simp]:
  "acquireVsCodeApi (run_listener l m s) = acquireVsCodeApi s"
  "vsCodeApi (run_listener l m s) = vsCodeApi s"
  "acquire_calls (run_listener l m s) = acquire_calls s"
  "sent (run_listener l m s) = sent s"
  "console (run_listener l m s) = console s"
  "next_promise (run_listener l m s) = next_promise s"
  "localStorage (run_listener l m s) = localStorage s"
  by (simp_all add: run_listener_def split: option.split)

lemma run_listener_listeners:
  "listeners (run_listener l m s) = (if fires m l then removeAll l (listeners s) else listeners s)"
  by (auto simp add: run_listener_def fires_def split: option.split)

lemma run_listener_promises:
  "promises (run_listener l m s) q =
     (if fires m l \<and> q = promise l \<and> promises s q = None
      then Some (Fulfilled (first_arg (the (data m)))) else promises s q)"
  by (auto simp add: run_listener_def fires_def resolve_promises split: option.split)

lemma fold_listener_frame [simp]:
  "acquireVsCodeApi (fold (\<lambda>l. run_listener l m) ls s) = acquireVsCodeApi s"
  "vsCodeApi (fold (\<lambda>l. run_listener l m) ls s) = vsCodeApi s"
  "acquire_calls (fold (\<lambda>l. run_listener l m) ls s) = acquire_calls s"
  "sent (fold (\<lambda>l. run_listener l m) ls s) = sent s"
  "console (fold (\<lambda>l. run_listener l m) ls s) = console s"
  "next_promise (fold (\<lambda>l. run_listener l m) ls s) = next_promise s"
  "localStorage (fold (\<lambda>l. run_listener l m) ls s) = localStorage s"
  by (induction ls arbitrary: s; simp)+

lemma fold_listener_listeners:
  "listeners (fold (\<lambda>l. run_listener l m) ls s) =
     filter (\<lambda>l. \<not> (l \<in> set ls \<and> fires m l)) (listeners s)"
proof (induction ls arbitrary: s)
  case Nil
  then show ?case by simp
next
  case (Cons a ls)
  show ?case
    by (auto simp add: Cons.IH run_listener_listeners removeAll_filter_not_eq
        intro!: filter_cong)
qed

lemma message_event_frame [simp]:
  "acquireVsCodeApi (message_event m s) = acquireVsCodeApi s"
  "vsCodeApi (message_event m s) = vsCodeApi s"
  "acquire_calls (message_event m s) = acquire_calls s"
  "sent (message_event m s) = sent s"
  "console (message_event m s) = console s"
  "next_promise (message_event m s) = next_promise s"
  "localStorage (message_event m s) = localStorage s"
  by (simp_all add: message_event_def)

lemma message_event_listeners:
  "listeners (message_event m s) = filter (\<lambda>l. \<not> fires m l) (listeners s)"
  by (auto simp add: message_event_def fold_listener_listeners intro!: filter_cong)

lemma fold_listener_settled:
  "promises s q = Some x \<Longrightarrow> promises (fold (\<lambda>l. run_listener l m) ls s) q = Some x"
  by (induction ls arbitrary: s) (simp_all add: run_listener_promises)

lemma fold_listener_others:
  "\<forall>l \<in> set ls. fires m l \<longrightarrow> promise l \<noteq> q \<Longrightarrow>
   promises (fold (\<lambda>l. run_listener l m) ls s) q = promises s q"
  by (induction ls arbitrary: s) (auto simp add: run_listener_promises)

lemma fold_listener_fires:
  "l \<in> set ls \<Longrightarrow> fires m l \<Longrightarrow> promises s (promise l) = None \<Longrightarrow>
   promises (fold (\<lambda>l. run_listener l m) ls s) (promise l) =
     Some (Fulfilled (first_arg (the (data m))))"
proof (induction ls arbitrary: s)
  case Nil
  then show ?case by simp
next
  case (Cons a ls)
  show ?case
  proof (cases "fires m a \<and> promise a = promise l")
    case True
    then have "promises (run_listener a m s) (promise l) = Some (Fulfilled (first_arg (the (data m))))"
      using Cons.prems(3) by (simp add: run_listener_promises)
    then show ?thesis by (simp add: fold_listener_settled)
  next
    case False
    then have "a \<noteq> l" using Cons.prems(2) by auto
    then have "l \<in> set ls" using Cons.prems(1) by simp
    moreover have "promises (run_listener a m s) (promise l) = None"
      using False Cons.prems(3) by (auto simp add: run_listener_promises)
    ultimately show ?thesis using Cons.IH Cons.prems(2) by simp
  qed
qed

lemma new_promise_frame [simp]:
  "acquireVsCodeApi (snd (new_promise s)) = acquireVsCodeApi s"
  "vsCodeApi (snd (new_promise s)) = vsCodeApi s"
  "acquire_calls (snd (new_promise s)) = acquire_calls s"
  "sent (snd (new_promise s)) = sent s"
  "console (snd (new_promise s)) = console s"
  "listeners (snd (new_promise s)) = listeners s"
  "localStorage (snd (new_promise s)) = localStorage s"
  "next_promise (snd (new_promise s)) = Suc (next_promise s)"
  "fst (new_promise s) = next_promise s"
  "promises (snd (new_promise s)) = (promises s)(next_promise s := None)"
  by (simp_all add: new_promise_def)

lemma invoke_alt:
  "invoke opts now random s =
     (next_promise s,
      if acquireVsCodeApi s = None
      then resolve (next_promise s) (opt_default opts) (snd (new_promise s))
      else postMessage
             \<lparr>command = opt_command opts, data = opt_args opts, callback = Some (new_id now random)\<rparr>
             (addEventListener (Listener (new_id now random) (next_promise s)) (snd (new_promise s))))"
  by (simp add: invoke_def new_promise_def Let_def)

lemma invoke_frame [simp]:
  "acquireVsCodeApi (snd (invoke opts now random s)) = acquireVsCodeApi s"
  "vsCodeApi (snd (invoke opts now random s)) = vsCodeApi s"
  "acquire_calls (snd (invoke opts now random s)) = acquire_calls s"
  "localStorage (snd (invoke opts now random s)) = localStorage s"
  "next_promise (snd (invoke opts now random s)) = Suc (next_promise s)"
  "fst (invoke opts now random s) = next_promise s"
  by (simp_all add: invoke_alt)

lemma getState_alt:
  "getState parse key now random s =
     (case vsCodeApi s of
        Some api \<Rightarrow>
          invoke \<lparr>opt_command = ''getState'', opt_default = JUndefined, opt_args = Some [JStr key]\<rparr>
            now random s
      | None \<Rightarrow>
          (next_promise s,
           settle (next_promise s)
             (case localStorage s key of
                None \<Rightarrow> Fulfilled JUndefined
              | Some state \<Rightarrow>
                  if state \<noteq> []
                  then (case parse state of Inl e \<Rightarrow> Rejected e | Inr v \<Rightarrow> Fulfilled v)
                  else Fulfilled JUndefined)
             (snd (new_promise s))))"
  by (simp add: getState_def Let_def new_promise_def split: option.split sum.split prod.split)

lemma setState_alt:
  "setState stringify key v now random s =
     (case vsCodeApi s of
        Some api \<Rightarrow>
          invoke \<lparr>opt_command = ''setState'', opt_default = JUndefined,
                  opt_args = Some [JStr key, v]\<rparr> now random s
      | None \<Rightarrow>
          (next_promise s,
           settle (next_promise s) (Fulfilled JUndefined)
             ((snd (new_promise s))\<lparr>localStorage := (localStorage s)
                (key \<mapsto> (case stringify v of None \<Rightarrow> ''undefined'' | Some t \<Rightarrow> t))\<rparr>)))"
  by (simp add: setState_def Let_def new_promise_def split: option.split prod.split)

lemma getState_frame [simp]:
  "acquireVsCodeApi (snd (getState parse key now random s)) = acquireVsCodeApi s"
  "vsCodeApi (snd (getState parse key now random s)) = vsCodeApi s"
  "acquire_calls (snd (getState parse key now random s)) = acquire_calls s"
  "localStorage (snd (getState parse key now random s)) = localStorage s"
  "next_promise (snd (getState parse key now random s)) = Suc (next_promise s)"
  "fst (getState parse key now random s) = next_promise s"
  by (simp_all add: getState_alt split: option.split)

lemma setState_frame [simp]:
  "acquireVsCodeApi (snd (setState stringify key v now random s)) = acquireVsCodeApi s"
  "vsCodeApi (snd (setState stringify key v now random s)) = vsCodeApi s"
  "acquire_calls (snd (setState stringify key v now random s)) = acquire_calls s"
  "next_promise (snd (setState stringify key v now random s)) = Suc (next_promise s)"
  "fst (setState stringify key v now random s) = next_promise s"
  by (simp_all add: setState_alt split: option.split)

lemma step_frame [simp]:
  "acquireVsCodeApi (step stringify parse e s) = acquireVsCodeApi s"
  "vsCodeApi (step stringify parse e s) = vsCodeApi s"
  "acquire_calls (step stringify parse e s) = acquire_calls s"
  by (simp_all add: step_def split: event.split)

lemma run_frame [simp]:
  "acquireVsCodeApi (run stringify parse es s) = acquireVsCodeApi s"
  "vsCodeApi (run stringify parse es s) = vsCodeApi s"
  "acquire_calls (run stringify parse es s) = acquire_calls s"
  unfolding run_def by (induction es arbitrary: s; simp)+

lemma constructed [simp]:
  "acquireVsCodeApi (new_VSCodeAPIWrapper (load_page g store)) = g"
  "vsCodeApi (new_VSCodeAPIWrapper (load_page g store)) = g"
  "acquire_calls (new_VSCodeAPIWrapper (load_page g store)) = (if g = None then 0 else 1)"
  by (simp_all add: new_VSCodeAPIWrapper_def load_page_def split: option.split)

subsection \<open>Decimal text and the token\<close>

declare decimal.simps [simp del]

lemma digit_simps:
  "digit 0 = CHR ''0''" "digit 1 = CHR ''1''" "digit 2 = CHR ''2''" "digit 3 = CHR ''3''"
  "digit 4 = CHR ''4''" "digit 5 = CHR ''5''" "digit 6 = CHR ''6''" "digit 7 = CHR ''7''"
  "digit 8 = CHR ''8''" "digit 9 = CHR ''9''" "digit (Suc 0) = CHR ''1''"
  by code_simp+

lemma digit_code: "d < 10 \<Longrightarrow> (of_char (digit d) :: nat) = 48 + d"
  by (simp add: digit_def)

lemma decimal_digits: "c \<in> set (decimal n) \<Longrightarrow> 48 \<le> (of_char c :: nat) \<and> (of_char c :: nat) < 58"
proof (induction n arbitrary: c rule: decimal.induct)
  case (1 n)
  show ?case
  proof (cases "n < 10")
    case True
    then have "c = digit n" using "1.prems" by (subst (asm) decimal.simps) simp
    then show ?thesis using True by (simp add: digit_code)
  next
    case False
    then have "c \<in> set (decimal (n div 10)) \<or> c = digit (n mod 10)"
      using "1.prems" by (subst (asm) decimal.simps) auto
    moreover have "(of_char (digit (n mod 10)) :: nat) = 48 + n mod 10"
      by (rule digit_code) simp
    ultimately show ?thesis using "1.IH" [OF False] by auto
  qed
qed

lemma decimal_nonempty: "decimal n \<noteq> []"
  by (subst decimal.simps) simp

lemma decimal_value: "foldl (\<lambda>a c. a * 10 + (of_char c - 48)) (0::nat) (decimal n) = n"
proof (induction n rule: decimal.induct)
  case (1 n)
  show ?case
  proof (cases "n < 10")
    case True
    then show ?thesis by (subst decimal.simps) (simp add: digit_code)
  next
    case False
    have "(of_char (digit (n mod 10)) :: nat) = 48 + n mod 10"
      by (rule digit_code) simp
    then show ?thesis using False "1.IH" by (subst decimal.simps) simp
  qed
qed

lemma decimal_inj:
  assumes "decimal n = decimal m"
  shows "n = m"
proof -
  have "foldl (\<lambda>a c. a * 10 + (of_char c - 48)) (0::nat) (decimal n) =
        foldl (\<lambda>a c. a * 10 + (of_char c - 48)) (0::nat) (decimal m)"
    by (rule arg_cong [OF assms])
  then show ?thesis by (simp only: decimal_value)
qed

lemma decimal_no_sign: "CHR ''-'' \<notin> set (decimal n)" "CHR ''_'' \<notin> set (decimal n)"
  using decimal_digits [of "CHR ''-''" n] decimal_digits [of "CHR ''_''" n] by auto


lemma number_text_inj:
  assumes eq: "number_text i = number_text j"
  shows "i = j"
proof -
  have nd: "hd (decimal n) \<noteq> CHR ''-''" for n
  proof -
    have "hd (decimal n) \<in> set (decimal n)" using decimal_nonempty by simp
    then show ?thesis using decimal_no_sign(1) by metis
  qed
  show "i = j"
  proof (cases "i < 0")
    case True
    show ?thesis
    proof (cases "j < 0")
      case jt: True
      with True eq have "decimal (nat (- i)) = decimal (nat (- j))"
        by (simp add: number_text_def)
      then have "nat (- i) = nat (- j)" by (rule decimal_inj)
      with True jt show ?thesis by simp
    next
      case False
      with True eq have "CHR ''-'' # decimal (nat (- i)) = decimal (nat j)"
        by (simp add: number_text_def)
      then have "hd (decimal (nat j)) = CHR ''-''" by (metis list.sel(1))
      then show ?thesis using nd by blast
    qed
  next
    case False
    show ?thesis
    proof (cases "j < 0")
      case True
      with False eq have "decimal (nat i) = CHR ''-'' # decimal (nat (- j))"
        by (simp add: number_text_def)
      then have "hd (decimal (nat i)) = CHR ''-''" by (metis list.sel(1))
      then show ?thesis using nd by blast
    next
      case jf: False
      with False eq have "decimal (nat i) = decimal (nat j)"
        by (simp add: number_text_def)
      then have "nat i = nat j" by (rule decimal_inj)
      with False jf show ?thesis by simp
    qed
  qed
qed

lemma number_text_no_underscore: "CHR ''_'' \<notin> set (number_text i)"
  by (simp add: number_text_def decimal_no_sign)

lemma split_at_first:
  "x \<notin> set xs \<Longrightarrow> x \<notin> set xs' \<Longrightarrow> xs @ x # ys = xs' @ x # ys' \<Longrightarrow> xs = xs' \<and> ys = ys'"
proof (induction xs arbitrary: xs')
  case Nil
  then show ?case by (cases xs') auto
next
  case (Cons a xs)
  then show ?case by (cases xs') auto
qed

lemma new_id_inj: "new_id now random = new_id now' random' \<longleftrightarrow> now = now' \<and> random = random'"
proof
  assume "new_id now random = new_id now' random'"
  then have "number_text now @ CHR ''_'' # random = number_text now' @ CHR ''_'' # random'"
    by (simp add: new_id_def)
  then have "number_text now = number_text now' \<and> random = random'"
    by (rule split_at_first [OF number_text_no_underscore number_text_no_underscore])
  then show "now = now' \<and> random = random'" using number_text_inj by blast
next
  assume "now = now' \<and> random = random'"
  then show "new_id now random = new_id now' random'" by simp
qed

lemma new_id_nonempty: "new_id now random \<noteq> []"
  by (simp add: new_id_def)

subsection \<open>JSON serializable values cross the channel unchanged\<close>

lemma serializable_defined: "json_serializable v \<Longrightarrow> v \<noteq> JUndefined"
  by auto

lemma json_copy_serializable: "json_serializable v \<Longrightarrow> json_copy v = v"
proof (induction v rule: json_copy.induct)
  case (1 xs)
  have "(if x = JUndefined then JNull else json_copy x) = x" if "x \<in> set xs" for x
  proof -
    have "json_serializable x" using that "1.prems" by (simp add: list_all_iff)
    then show ?thesis using "1.IH" [OF that] serializable_defined by simp
  qed
  then show ?case by (simp add: map_idI)
next
  case (2 ps)
  have ok: "json_serializable (snd p)" if "p \<in> set ps" for p
    using that "2.prems" by (simp add: list_all_iff)
  have a: "filter (\<lambda>p. snd p \<noteq> JUndefined) ps = ps"
    using ok serializable_defined by (simp add: filter_id_conv)
  have "(fst p, json_copy (snd p)) = p" if "p \<in> set ps" for p
  proof -
    have "p \<in> set (filter (\<lambda>p. snd p \<noteq> JUndefined) ps)" using that a by simp
    then have "json_copy (snd p) = snd p" using "2.IH" ok [OF that] by blast
    then show ?thesis by simp
  qed
  then show ?case by (simp add: a map_idI)
qed simp_all

lemma in_array_serializable: "json_serializable v \<Longrightarrow> in_array v = v"
  by (auto simp add: in_array_def json_copy_serializable)

subsection \<open>What one call of invoke changes\<close>

lemma run_snoc: "run stringify parse (es @ [e]) s = step stringify parse e (run stringify parse es s)"
  by (simp add: run_def)

lemma invoke_listeners:
  "listeners (snd (invoke opts now random s)) =
     (if acquireVsCodeApi s = None \<or> Listener (new_id now random) (next_promise s) \<in> set (listeners s)
      then listeners s
      else listeners s @ [Listener (new_id now random) (next_promise s)])"
  by (simp add: invoke_alt addEventListener_listeners)

lemma invoke_promises:
  "promises (snd (invoke opts now random s)) q =
     (if q = next_promise s
      then (if acquireVsCodeApi s = None then Some (Fulfilled (opt_default opts)) else None)
      else promises s q)"
  by (simp add: invoke_alt resolve_promises)

lemma invoke_sent:
  "sent (snd (invoke opts now random s)) =
     (if acquireVsCodeApi s = None \<or> vsCodeApi s = None then sent s
      else sent s @ [\<lparr>command = opt_command opts, data = opt_args opts,
                       callback = Some (new_id now random)\<rparr>])"
  "console (snd (invoke opts now random s)) =
     (if acquireVsCodeApi s \<noteq> None \<and> vsCodeApi s = None
      then console s @ [\<lparr>command = opt_command opts, data = opt_args opts,
                           callback = Some (new_id now random)\<rparr>]
      else console s)"
  by (simp_all add: invoke_alt postMessage_sent)

subsection \<open>Every history keeps the page well formed\<close>

lemma page_ok_alloc:
  assumes "page_ok s"
    and "listeners s' = listeners s"
    and "next_promise s' = Suc (next_promise s)"
    and "\<And>q. q < next_promise s \<Longrightarrow> promises s' q = promises s q"
  shows "page_ok s'"
  using assms by (auto simp add: page_ok_def list_all_iff)

lemma page_ok_attach:
  assumes "page_ok s"
    and "listeners s' = listeners s @ [Listener t (next_promise s)]"
    and "next_promise s' = Suc (next_promise s)"
    and "promises s' (next_promise s) = None"
    and "\<And>q. q < next_promise s \<Longrightarrow> promises s' q = promises s q"
  shows "page_ok s'"
  using assms by (auto simp add: page_ok_def list_all_iff)

lemma fresh_listener:
  "page_ok s \<Longrightarrow> Listener t (next_promise s) \<notin> set (listeners s)"
  by (auto simp add: page_ok_def list_all_iff)

lemma page_ok_invoke: "page_ok s \<Longrightarrow> page_ok (snd (invoke opts now random s))"
proof (cases "acquireVsCodeApi s = None")
  case True
  assume "page_ok s"
  then show ?thesis
    by (rule page_ok_alloc) (simp_all add: invoke_listeners invoke_promises True)
next
  case False
  assume ok: "page_ok s"
  then show ?thesis
    by (rule page_ok_attach [where t = "new_id now random"])
      (simp_all add: invoke_listeners invoke_promises False fresh_listener [OF ok])
qed

lemma getState_fallback:
  assumes "vsCodeApi s = None"
  shows "listeners (snd (getState parse key now random s)) = listeners s"
    and "sent (snd (getState parse key now random s)) = sent s"
    and "console (snd (getState parse key now random s)) = console s"
    and "promises (snd (getState parse key now random s)) q =
           (if q = next_promise s
            then Some (case localStorage s key of
                         None \<Rightarrow> Fulfilled JUndefined
                       | Some state \<Rightarrow>
                           if state \<noteq> []
                           then (case parse state of Inl e \<Rightarrow> Rejected e | Inr v \<Rightarrow> Fulfilled v)
                           else Fulfilled JUndefined)
            else promises s q)"
  using assms by (simp_all add: getState_alt settle_promises)

lemma setState_fallback:
  assumes "vsCodeApi s = None"
  shows "listeners (snd (setState stringify key v now random s)) = listeners s"
    and "sent (snd (setState stringify key v now random s)) = sent s"
    and "console (snd (setState stringify key v now random s)) = console s"
    and "promises (snd (setState stringify key v now random s)) q =
           (if q = next_promise s then Some (Fulfilled JUndefined) else promises s q)"
    and "localStorage (snd (setState stringify key v now random s)) =
           (localStorage s)(key \<mapsto> (case stringify v of None \<Rightarrow> ''undefined'' | Some t \<Rightarrow> t))"
  using assms by (simp_all add: setState_alt settle_promises new_promise_def)

lemma getState_channel:
  "vsCodeApi s \<noteq> None \<Longrightarrow>
   getState parse key now random s =
     invoke \<lparr>opt_command = ''getState'', opt_default = JUndefined, opt_args = Some [JStr key]\<rparr>
       now random s"
  by (auto simp add: getState_alt)

lemma setState_channel:
  "vsCodeApi s \<noteq> None \<Longrightarrow>
   setState stringify key v now random s =
     invoke \<lparr>opt_command = ''setState'', opt_default = JUndefined,
             opt_args = Some [JStr key, v]\<rparr> now random s"
  by (auto simp add: setState_alt)

lemma page_ok_getState: "page_ok s \<Longrightarrow> page_ok (snd (getState parse key now random s))"
proof (cases "vsCodeApi s = None")
  case True
  assume "page_ok s"
  then show ?thesis
    by (rule page_ok_alloc) (simp_all add: getState_fallback [OF True])
next
  case False
  assume "page_ok s"
  then show ?thesis by (simp add: getState_channel [OF False] page_ok_invoke)
qed

lemma page_ok_setState: "page_ok s \<Longrightarrow> page_ok (snd (setState stringify key v now random s))"
proof (cases "vsCodeApi s = None")
  case True
  assume "page_ok s"
  then show ?thesis
    by (rule page_ok_alloc) (simp_all add: setState_fallback [OF True])
next
  case False
  assume "page_ok s"
  then show ?thesis by (simp add: setState_channel [OF False] page_ok_invoke)
qed

lemma page_ok_postMessage: "page_ok s \<Longrightarrow> page_ok (postMessage m s)"
  by (simp add: page_ok_def)

lemma message_event_promises_other:
  assumes "page_ok s" and "l \<in> set (listeners s)" and "\<not> fires m l"
  shows "promises (message_event m s) (promise l) = promises s (promise l)"
proof -
  have "\<forall>k \<in> set (listeners s). fires m k \<longrightarrow> promise k \<noteq> promise l"
  proof (intro ballI impI)
    fix k assume k: "k \<in> set (listeners s)" and f: "fires m k"
    then have "k \<noteq> l" using assms(3) by auto
    moreover have "inj_on promise (set (listeners s))"
      using assms(1) by (simp add: page_ok_def distinct_map)
    ultimately show "promise k \<noteq> promise l" using k assms(2) by (auto dest: inj_onD)
  qed
  then show ?thesis by (simp add: message_event_def fold_listener_others)
qed

lemma message_event_promises_fired:
  assumes "page_ok s" and "l \<in> set (listeners s)" and "fires m l"
  shows "promises (message_event m s) (promise l) = Some (Fulfilled (first_arg (the (data m))))"
proof -
  have "promises s (promise l) = None"
    using assms(1,2) by (auto simp add: page_ok_def list_all_iff)
  then show ?thesis using assms(2,3) by (simp add: message_event_def fold_listener_fires)
qed

lemma page_ok_message_event: "page_ok s \<Longrightarrow> page_ok (message_event m s)"
proof -
  assume ok: "page_ok s"
  have d: "distinct (map promise (listeners (message_event m s)))"
    using ok by (simp add: page_ok_def message_event_listeners distinct_map_filter)
  have "promise l < next_promise (message_event m s) \<and>
        promises (message_event m s) (promise l) = None"
    if "l \<in> set (listeners (message_event m s))" for l
  proof -
    from that have l: "l \<in> set (listeners s)" and nf: "\<not> fires m l"
      by (simp_all add: message_event_listeners)
    have "promises (message_event m s) (promise l) = promises s (promise l)"
      by (rule message_event_promises_other [OF ok l nf])
    then show ?thesis using ok l by (auto simp add: page_ok_def list_all_iff)
  qed
  then show ?thesis using d by (simp add: page_ok_def list_all_iff)
qed

lemma page_ok_step: "page_ok s \<Longrightarrow> page_ok (step stringify parse e s)"
  by (cases e)
    (simp_all add: step_def page_ok_postMessage page_ok_invoke page_ok_getState
      page_ok_setState page_ok_message_event)

lemma page_ok_run: "page_ok s \<Longrightarrow> page_ok (run stringify parse es s)"
  unfolding run_def by (induction es arbitrary: s) (simp_all add: page_ok_step)

lemma page_ok_constructed: "page_ok (new_VSCodeAPIWrapper (load_page g store))"
  by (simp add: page_ok_def new_VSCodeAPIWrapper_def load_page_def split: option.split)

lemma page_ok_history:
  "page_ok (run stringify parse es (new_VSCodeAPIWrapper (load_page g store)))"
  by (rule page_ok_run [OF page_ok_constructed])

subsection \<open>The listeners along a history\<close>

lemma constructed_fields [simp]:
  "listeners (new_VSCodeAPIWrapper (load_page g store)) = []"
  "next_promise (new_VSCodeAPIWrapper (load_page g store)) = 0"
  "sent (new_VSCodeAPIWrapper (load_page g store)) = []"
  "console (new_VSCodeAPIWrapper (load_page g store)) = []"
  "promises (new_VSCodeAPIWrapper (load_page g store)) = Map.empty"
  "localStorage (new_VSCodeAPIWrapper (load_page g store)) = store"
  by (simp_all add: new_VSCodeAPIWrapper_def load_page_def split: option.split)

lemma step_listeners:
  "listeners (step stringify parse e s) = listeners s \<or>
   (\<exists>now random p. sample e = [(now, random)] \<and>
      listeners (step stringify parse e s) = listeners s @ [Listener (new_id now random) p]) \<or>
   (\<exists>P. listeners (step stringify parse e s) = filter P (listeners s))"
proof (cases e)
  case (PostMessage m)
  then show ?thesis by (simp add: step_def)
next
  case (Invoke opts now random)
  then show ?thesis by (simp add: step_def invoke_listeners)
next
  case (GetState key now random)
  show ?thesis
  proof (cases "vsCodeApi s = None")
    case True
    then show ?thesis by (simp add: GetState step_def getState_fallback)
  next
    case False
    then show ?thesis by (simp add: GetState step_def getState_channel invoke_listeners)
  qed
next
  case (SetState key v now random)
  show ?thesis
  proof (cases "vsCodeApi s = None")
    case True
    then show ?thesis by (simp add: SetState step_def setState_fallback)
  next
    case False
    then show ?thesis by (simp add: SetState step_def setState_channel invoke_listeners)
  qed
next
  case (MessageEvent m)
  then show ?thesis by (auto simp add: step_def message_event_listeners)
qed

lemma samples_snoc: "samples (es @ [e]) = samples es @ sample e"
  by (simp add: samples_def)

lemma tokens_of_history:
  assumes "distinct (samples es)"
  shows "distinct (map token (listeners (run stringify parse es (new_VSCodeAPIWrapper (load_page g store))))) \<and>
         token ` set (listeners (run stringify parse es (new_VSCodeAPIWrapper (load_page g store))))
           \<subseteq> (\<lambda>(now, random). new_id now random) ` set (samples es)"
  using assms
proof (induction es rule: rev_induct)
  case Nil
  show ?case by (simp add: run_def new_VSCodeAPIWrapper_def load_page_def split: option.split)
next
  case (snoc e es)
  let ?s = "run stringify parse es (new_VSCodeAPIWrapper (load_page g store))"
  let ?s' = "step stringify parse e ?s"
  have d: "distinct (samples es)" using snoc.prems by (simp add: samples_snoc)
  have ih: "distinct (map token (listeners ?s))"
    "token ` set (listeners ?s) \<subseteq> (\<lambda>(now, random). new_id now random) ` set (samples es)"
    using snoc.IH [OF d] by simp_all
  have "distinct (map token (listeners ?s')) \<and>
        token ` set (listeners ?s') \<subseteq> (\<lambda>(now, random). new_id now random) ` set (samples es @ sample e)"
    using step_listeners [of stringify parse e ?s]
  proof (elim disjE exE conjE)
    assume "listeners ?s' = listeners ?s"
    then show ?thesis using ih by auto
  next
    fix now random p
    assume smp: "sample e = [(now, random)]"
      and ls: "listeners ?s' = listeners ?s @ [Listener (new_id now random) p]"
    have "(now, random) \<notin> set (samples es)"
      using snoc.prems by (simp add: samples_snoc smp)
    then have "new_id now random \<notin> (\<lambda>(now, random). new_id now random) ` set (samples es)"
      by (auto simp add: new_id_inj)
    then have "new_id now random \<notin> token ` set (listeners ?s)" using ih(2) by blast
    then show ?thesis using ih by (auto simp add: ls smp)
  next
    fix P
    assume "listeners ?s' = filter P (listeners ?s)"
    then show ?thesis using ih by (auto simp add: distinct_map_filter)
  qed
  then show ?case by (simp add: run_snoc samples_snoc)
qed

section \<open>The claims\<close>

subsection \<open>C1: round trip through the bridge\<close>

text \<open>
  Claim C1. On a page with a host channel, after any history, let \<^verbatim>\<open>invoke\<close> post its
  request, let the channel carry it to the dispatcher, where a handler is registered
  for the command and returns a JSON serializable value \<open>r\<close> (\<^verbatim>\<open>null\<close>, \<open>0\<close>, the
  empty string and nested containers are such values), and let the channel carry the
  dispatcher's message back to the window. Then the request is the one message
  \<^verbatim>\<open>invoke\<close> sent, the promise is pending until the response arrives, the dispatcher
  posts \<^verbatim>\<open>{command: token, data: [r]}\<close>, and the promise of the call is fulfilled with
  exactly \<open>r\<close>.
\<close>

theorem bridge_round_trip:
  assumes "s = run stringify parse es (new_VSCodeAPIWrapper (load_page (Some api) store))"
    and "invoke opts now random s = (p, s1)"
    and "handler_map (opt_command opts) = Some h"
    and "h (case opt_args opts of None \<Rightarrow> [] | Some a \<Rightarrow> map in_array a) (world st) = (Returns r, w)"
    and "json_serializable r"
    and "onDidReceiveMessage handler_map (transmit (last (sent s1))) st = (out, st1)"
    and "s2 = message_event (transmit (last (posted st1))) s1"
  shows "sent s1 = sent s @ [\<lparr>command = opt_command opts, data = opt_args opts,
                              callback = Some (new_id now random)\<rparr>] \<and>
         promises s1 p = None \<and>
         posted st1 = posted st @ [\<lparr>command = new_id now random, data = Some [r], callback = None\<rparr>] \<and>
         promises s2 p = Some (Fulfilled r)"
proof -
  let ?req = "\<lparr>command = opt_command opts, data = opt_args opts, callback = Some (new_id now random)\<rparr>"
  let ?resp = "\<lparr>command = new_id now random, data = Some [r], callback = None\<rparr>"
  have g: "acquireVsCodeApi s = Some api" "vsCodeApi s = Some api" by (simp_all add: assms(1))
  have ok: "page_ok s" unfolding assms(1) by (rule page_ok_history)
  have p: "p = next_promise s" and s1: "s1 = snd (invoke opts now random s)"
    using assms(2) invoke_frame(6) [of opts now random s] by simp_all
  have sent1: "sent s1 = sent s @ [?req]" by (simp add: s1 invoke_sent g)
  have pend: "promises s1 p = None" by (simp add: s1 p invoke_promises g)
  have att: "Listener (new_id now random) p \<in> set (listeners s1)"
    by (simp add: s1 p invoke_listeners g)
  have ok1: "page_ok s1" unfolding s1 by (rule page_ok_invoke [OF ok])
  have args: "(case data (transmit ?req) of None \<Rightarrow> [] | Some d \<Rightarrow> d) =
              (case opt_args opts of None \<Rightarrow> [] | Some a \<Rightarrow> map in_array a)"
    by (cases "opt_args opts") (simp_all add: transmit_def)
  have st1: "st1 = snd (onDidReceiveMessage handler_map (transmit ?req) st)"
    using assms(6) by (simp add: sent1)
  have "onDidReceiveMessage handler_map (transmit ?req) st =
          (Returns (), st\<lparr>world := w,
             invoked := invoked st @ [(command (transmit ?req),
               case data (transmit ?req) of None \<Rightarrow> [] | Some d \<Rightarrow> d)],
             posted := posted st @ [?resp]\<rparr>)"
  proof (rule dispatch_returns)
    show "handler_map (command (transmit ?req)) = Some h" by (simp add: transmit_def assms(3))
    show "h (case data (transmit ?req) of None \<Rightarrow> [] | Some d \<Rightarrow> d) (world st) = (Returns r, w)"
      unfolding args by (rule assms(4))
    show "callback (transmit ?req) = Some (new_id now random)" by (simp add: transmit_def)
    show "new_id now random \<noteq> []" by (rule new_id_nonempty)
  qed
  then have posted1: "posted st1 = posted st @ [?resp]"
    by (simp add: st1)
  have tr: "transmit ?resp = ?resp"
    by (simp add: transmit_def in_array_serializable [OF assms(5)])
  have "fires ?resp (Listener (new_id now random) p)" by (simp add: fires_def)
  then have "promises (message_event ?resp s1) p = Some (Fulfilled r)"
    using message_event_promises_fired [OF ok1 att] by (simp add: first_arg_def)
  then have "promises s2 p = Some (Fulfilled r)"
    by (simp add: assms(7) posted1 tr)
  then show ?thesis using sent1 pend posted1 by simp
qed

theorem bridge_round_trip_witness:
  "promises
     (message_event
        (transmit (last (posted (snd (onDidReceiveMessage
           (panel_map id (\<lambda>args w. (Never, w)))
           (transmit (last (sent (snd (invoke
              \<lparr>opt_command = ''selectPath'', opt_default = JUndefined, opt_args = Some [JStr ''pick'']\<rparr>
              1730628000123 ''0.8437'' (new_VSCodeAPIWrapper (load_page (Some WebviewApi) Map.empty)))))))
           (fresh_panel\<lparr>world := \<lparr>information_messages = [], open_dialog = Some [''/home/me/app'']\<rparr>\<rparr>))))))
        (snd (invoke
           \<lparr>opt_command = ''selectPath'', opt_default = JUndefined, opt_args = Some [JStr ''pick'']\<rparr>
           1730628000123 ''0.8437'' (new_VSCodeAPIWrapper (load_page (Some WebviewApi) Map.empty)))))
     0 = Some (Fulfilled (JStr ''/home/me/app''))"
proof -
  let ?page = "new_VSCodeAPIWrapper (load_page (Some WebviewApi) Map.empty)"
  let ?opts = "\<lparr>opt_command = ''selectPath'', opt_default = JUndefined, opt_args = Some [JStr ''pick'']\<rparr>"
  let ?map = "panel_map id (\<lambda>args w. (Never, w))"
  let ?panel = "fresh_panel\<lparr>world := \<lparr>information_messages = [], open_dialog = Some [''/home/me/app'']\<rparr>\<rparr>"
  let ?s1 = "snd (invoke ?opts 1730628000123 ''0.8437'' ?page)"
  let ?d = "onDidReceiveMessage ?map (transmit (last (sent ?s1))) ?panel"
  have a1: "?page = run (\<lambda>v. None) (\<lambda>t. Inl (SyntaxError t)) [] ?page"
    by (simp add: run_def)
  have a2: "invoke ?opts 1730628000123 ''0.8437'' ?page = (0, ?s1)"
    by (simp add: prod_eq_iff)
  have a3: "?map (opt_command ?opts) = Some (selectPath id)"
    by (simp add: panel_map_def)
  have a4: "selectPath id (case opt_args ?opts of None \<Rightarrow> [] | Some a \<Rightarrow> map in_array a) (world ?panel) =
            (Returns (JStr ''/home/me/app''),
             \<lparr>information_messages = [JStr ''pick''], open_dialog = Some [''/home/me/app'']\<rparr>)"
    by (simp add: selectPath_def first_arg_def fresh_panel_def in_array_def)
  have a5: "json_serializable (JStr ''/home/me/app'')" by simp
  have a6: "?d = (fst ?d, snd ?d)" by simp
  from bridge_round_trip [OF a1 a2 a3 a4 a5 a6 refl] show ?thesis by blast
qed

text \<open>
  The restriction to JSON serializable results matters: a handler without a return
  value, such as \<^verbatim>\<open>hello\<close>, yields \<^verbatim>\<open>undefined\<close>, and that arrives as \<^verbatim>\<open>null\<close>.
\<close>

lemma undefined_arrives_as_null:
  "transmit \<lparr>command = t, data = Some [JUndefined], callback = None\<rparr> =
     \<lparr>command = t, data = Some [JNull], callback = None\<rparr>"
  by (simp add: transmit_def in_array_def)

subsection \<open>C2: a registered command is dispatched and answered\<close>




subsection \<open>C3: an unknown command\<close>

text \<open>
  Claim C3. Dispatching a message whose command has no registered handler throws an
  error whose text ends in the command name; the panel is left as it was, so no handler
  was called and nothing was posted, whatever the data and the callback of the message.
\<close>

theorem dispatch_unknown_command:
  assumes "handler_map c = None"
  shows "onDidReceiveMessage handler_map \<lparr>command = c, data = d, callback = cb\<rparr> st =
           (Throws (Error (not_found_text @ c)), st)"
  using assms by (simp add: onDidReceiveMessage_def)

theorem dispatch_unknown_command_witness:
  "onDidReceiveMessage (panel_map id (\<lambda>args w. (Never, w)))
       \<lparr>command = ''getState'', data = Some [JStr ''theme''], callback = Some ''1730628000123_0.8437''\<rparr>
       fresh_panel =
     (Throws (Error (not_found_text @ ''getState'')), fresh_panel)"
  using dispatch_unknown_command [of "panel_map id (\<lambda>args w. (Never, w))" "''getState''"
      "Some [JStr ''theme'']" "Some ''1730628000123_0.8437''" fresh_panel]
  by (simp add: panel_map_def)

subsection \<open>C4: invoke without a host channel\<close>

text \<open>
  Claim C4. On a page loaded without the host function, after any history, \<^verbatim>\<open>invoke\<close>
  returns a promise that is already fulfilled with the default of the options, whatever
  the command and the arguments; nothing is sent to the channel or logged, no listener
  is added, and the local storage is untouched.
\<close>

theorem invoke_without_channel:
  assumes "s = run stringify parse es (new_VSCodeAPIWrapper (load_page None store))"
    and "invoke opts now random s = (p, s')"
  shows "promises s' p = Some (Fulfilled (opt_default opts)) \<and> sent s' = sent s \<and>
         console s' = console s \<and> listeners s' = listeners s \<and> localStorage s' = localStorage s"
proof -
  have g: "acquireVsCodeApi s = None" by (simp add: assms(1))
  have p: "p = next_promise s" and s': "s' = snd (invoke opts now random s)"
    using assms(2) invoke_frame(6) [of opts now random s] by simp_all
  show ?thesis
    by (simp add: p s' invoke_promises invoke_sent invoke_listeners g)
qed

theorem invoke_without_channel_witness:
  "promises (snd (invoke \<lparr>opt_command = ''getState'', opt_default = JStr ''light'', opt_args = Some [JStr ''theme'']\<rparr>
       1730628000123 ''0.8437'' (new_VSCodeAPIWrapper (load_page None Map.empty)))) 0 =
     Some (Fulfilled (JStr ''light'')) \<and>
   sent (snd (invoke \<lparr>opt_command = ''getState'', opt_default = JStr ''light'', opt_args = Some [JStr ''theme'']\<rparr>
       1730628000123 ''0.8437'' (new_VSCodeAPIWrapper (load_page None Map.empty)))) = [] \<and>
   listeners (snd (invoke \<lparr>opt_command = ''getState'', opt_default = JStr ''light'', opt_args = Some [JStr ''theme'']\<rparr>
       1730628000123 ''0.8437'' (new_VSCodeAPIWrapper (load_page None Map.empty)))) = []"
  using invoke_without_channel [of "new_VSCodeAPIWrapper (load_page None Map.empty)"
      "\<lambda>v. None" "\<lambda>t. Inl (SyntaxError t)" "[]" Map.empty
      "\<lparr>opt_command = ''getState'', opt_default = JStr ''light'', opt_args = Some [JStr ''theme'']\<rparr>"
      1730628000123 "''0.8437''" 0
      "snd (invoke \<lparr>opt_command = ''getState'', opt_default = JStr ''light'', opt_args = Some [JStr ''theme'']\<rparr>
         1730628000123 ''0.8437'' (new_VSCodeAPIWrapper (load_page None Map.empty)))"]
  by (simp add: run_def prod_eq_iff)

subsection \<open>C5: correlation tokens\<close>

text \<open>
  Claim C5, as the code has it. The token of a call is the decimal clock sample, an
  underscore and the text of the random fraction; the pending listeners are not
  consulted. Two calls get the same token exactly when they draw the same clock sample
  and the same random text. So in every history whose calls draw pairwise distinct
  (clock, random) pairs, no two attached listeners are keyed by the same token.
\<close>

theorem tokens_distinct_for_distinct_samples:
  assumes "distinct (samples es)"
  shows "(new_id now random = new_id now' random' \<longleftrightarrow> now = now' \<and> random = random') \<and>
         distinct (map token (listeners
           (run stringify parse es (new_VSCodeAPIWrapper (load_page g store)))))"
proof -
  have "distinct (map token (listeners
          (run stringify parse es (new_VSCodeAPIWrapper (load_page g store)))))"
    using tokens_of_history [OF assms] by blast
  then show ?thesis by (simp add: new_id_inj)
qed

theorem tokens_distinct_for_distinct_samples_witness:
  "distinct (samples
     [Invoke \<lparr>opt_command = ''selectPath'', opt_default = JNull, opt_args = Some [JStr ''a'']\<rparr>
        1730628000123 ''0.8437'',
      Invoke \<lparr>opt_command = ''selectPath'', opt_default = JNull, opt_args = Some [JStr ''b'']\<rparr>
        1730628000123 ''0.1'']) \<and>
   distinct (map token (listeners
     (run (\<lambda>v. None) (\<lambda>t. Inl (SyntaxError t))
        [Invoke \<lparr>opt_command = ''selectPath'', opt_default = JNull, opt_args = Some [JStr ''a'']\<rparr>
           1730628000123 ''0.8437'',
         Invoke \<lparr>opt_command = ''selectPath'', opt_default = JNull, opt_args = Some [JStr ''b'']\<rparr>
           1730628000123 ''0.1'']
        (new_VSCodeAPIWrapper (load_page (Some WebviewApi) Map.empty)))))"
  using tokens_distinct_for_distinct_samples [of
      "[Invoke \<lparr>opt_command = ''selectPath'', opt_default = JNull, opt_args = Some [JStr ''a'']\<rparr>
           1730628000123 ''0.8437'',
         Invoke \<lparr>opt_command = ''selectPath'', opt_default = JNull, opt_args = Some [JStr ''b'']\<rparr>
           1730628000123 ''0.1'']"
      0 "''''" 0 "''''" "\<lambda>v. None" "\<lambda>t. Inl (SyntaxError t)" "Some WebviewApi" Map.empty]
  by (simp add: samples_def)

text \<open>
  Two calls in the same millisecond that draw the same random fraction leave two
  listeners attached under one token.
\<close>

theorem token_collision_counterexample:
  "listeners
     (run (\<lambda>v. None) (\<lambda>t. Inl (SyntaxError t))
        [Invoke \<lparr>opt_command = ''selectPath'', opt_default = JNull, opt_args = Some [JStr ''a'']\<rparr>
           1730628000123 ''0.8437'',
         Invoke \<lparr>opt_command = ''selectPath'', opt_default = JNull, opt_args = Some [JStr ''b'']\<rparr>
           1730628000123 ''0.8437'']
        (new_VSCodeAPIWrapper (load_page (Some WebviewApi) Map.empty))) =
     [Listener ''1730628000123_0.8437'' 0, Listener ''1730628000123_0.8437'' 1]"
  by (simp add: run_def step_def invoke_listeners new_id_def number_text_def decimal.simps
      digit_simps)

subsection \<open>C6: waiters are independent\<close>

text \<open>
  Claim C6. After any history, take two attached listeners with distinct tokens
  \<open>a\<close> and \<open>b\<close>, in whichever order their calls were issued. Both promises are
  pending. A response message bearing \<open>b\<close> fulfils the promise of the listener under
  \<open>b\<close> with the first element of its data and detaches that listener; the promise of
  the listener under \<open>a\<close> stays pending and its listener stays attached.
\<close>

theorem waiters_independent:
  assumes "s = run stringify parse es (new_VSCodeAPIWrapper (load_page g store))"
    and "Listener a pa \<in> set (listeners s)"
    and "Listener b pb \<in> set (listeners s)"
    and "a \<noteq> b"
    and "s' = message_event \<lparr>command = b, data = Some d, callback = cb\<rparr> s"
  shows "promises s pa = None \<and> promises s pb = None \<and>
         promises s' pb = Some (Fulfilled (first_arg d)) \<and> Listener b pb \<notin> set (listeners s') \<and>
         promises s' pa = None \<and> Listener a pa \<in> set (listeners s')"
proof -
  let ?m = "\<lparr>command = b, data = Some d, callback = cb\<rparr>"
  have ok: "page_ok s" unfolding assms(1) by (rule page_ok_history)
  have fb: "fires ?m (Listener b pb)" by (simp add: fires_def)
  have fa: "\<not> fires ?m (Listener a pa)" using assms(4) by (simp add: fires_def)
  have pend: "promises s pa = None" "promises s pb = None"
    using ok assms(2,3) by (auto simp add: page_ok_def list_all_iff)
  have "promises s' pb = Some (Fulfilled (first_arg d))"
    using message_event_promises_fired [OF ok assms(3) fb] by (simp add: assms(5))
  moreover have "promises s' pa = None"
    using message_event_promises_other [OF ok assms(2) fa] pend by (simp add: assms(5))
  moreover have "Listener b pb \<notin> set (listeners s')" "Listener a pa \<in> set (listeners s')"
    using fa fb assms(2) by (simp_all add: assms(5) message_event_listeners)
  ultimately show ?thesis using pend by simp
qed

theorem waiters_independent_witness:
  "promises
     (message_event \<lparr>command = ''1730628000123_0.1'', data = Some [JStr ''dark''], callback = None\<rparr>
        (run (\<lambda>v. None) (\<lambda>t. Inl (SyntaxError t))
           [Invoke \<lparr>opt_command = ''selectPath'', opt_default = JNull, opt_args = Some [JStr ''a'']\<rparr>
              1730628000123 ''0.8437'',
            Invoke \<lparr>opt_command = ''getState'', opt_default = JNull, opt_args = Some [JStr ''theme'']\<rparr>
              1730628000123 ''0.1'']
           (new_VSCodeAPIWrapper (load_page (Some WebviewApi) Map.empty)))) 1 =
     Some (Fulfilled (JStr ''dark'')) \<and>
   promises
     (message_event \<lparr>command = ''1730628000123_0.1'', data = Some [JStr ''dark''], callback = None\<rparr>
        (run (\<lambda>v. None) (\<lambda>t. Inl (SyntaxError t))
           [Invoke \<lparr>opt_command = ''selectPath'', opt_default = JNull, opt_args = Some [JStr ''a'']\<rparr>
              1730628000123 ''0.8437'',
            Invoke \<lparr>opt_command = ''getState'', opt_default = JNull, opt_args = Some [JStr ''theme'']\<rparr>
              1730628000123 ''0.1'']
           (new_VSCodeAPIWrapper (load_page (Some WebviewApi) Map.empty)))) 0 = None \<and>
   Listener ''1730628000123_0.8437'' 0 \<in> set (listeners
     (message_event \<lparr>command = ''1730628000123_0.1'', data = Some [JStr ''dark''], callback = None\<rparr>
        (run (\<lambda>v. None) (\<lambda>t. Inl (SyntaxError t))
           [Invoke \<lparr>opt_command = ''selectPath'', opt_default = JNull, opt_args = Some [JStr ''a'']\<rparr>
              1730628000123 ''0.8437'',
            Invoke \<lparr>opt_command = ''getState'', opt_default = JNull, opt_args = Some [JStr ''theme'']\<rparr>
              1730628000123 ''0.1'']
           (new_VSCodeAPIWrapper (load_page (Some WebviewApi) Map.empty)))))"
proof -
  have l: "listeners
     (run (\<lambda>v. None) (\<lambda>t. Inl (SyntaxError t))
        [Invoke \<lparr>opt_command = ''selectPath'', opt_default = JNull, opt_args = Some [JStr ''a'']\<rparr>
           1730628000123 ''0.8437'',
         Invoke \<lparr>opt_command = ''getState'', opt_default = JNull, opt_args = Some [JStr ''theme'']\<rparr>
           1730628000123 ''0.1'']
        (new_VSCodeAPIWrapper (load_page (Some WebviewApi) Map.empty))) =
     [Listener ''1730628000123_0.8437'' 0, Listener ''1730628000123_0.1'' 1]"
    by (simp add: run_def step_def invoke_listeners new_id_def number_text_def decimal.simps
        digit_simps)
  show ?thesis
    using waiters_independent [of
        "run (\<lambda>v. None) (\<lambda>t. Inl (SyntaxError t))
           [Invoke \<lparr>opt_command = ''selectPath'', opt_default = JNull, opt_args = Some [JStr ''a'']\<rparr>
              1730628000123 ''0.8437'',
            Invoke \<lparr>opt_command = ''getState'', opt_default = JNull, opt_args = Some [JStr ''theme'']\<rparr>
              1730628000123 ''0.1'']
           (new_VSCodeAPIWrapper (load_page (Some WebviewApi) Map.empty))"
        "\<lambda>v. None" "\<lambda>t. Inl (SyntaxError t)"
        "[Invoke \<lparr>opt_command = ''selectPath'', opt_default = JNull, opt_args = Some [JStr ''a'']\<rparr>
              1730628000123 ''0.8437'',
            Invoke \<lparr>opt_command = ''getState'', opt_default = JNull, opt_args = Some [JStr ''theme'']\<rparr>
              1730628000123 ''0.1'']"
        "Some WebviewApi" Map.empty
        "''1730628000123_0.8437''" 0 "''1730628000123_0.1''" 1
        "message_event \<lparr>command = ''1730628000123_0.1'', data = Some [JStr ''dark''], callback = None\<rparr>
          (run (\<lambda>v. None) (\<lambda>t. Inl (SyntaxError t))
           [Invoke \<lparr>opt_command = ''selectPath'', opt_default = JNull, opt_args = Some [JStr ''a'']\<rparr>
              1730628000123 ''0.8437'',
            Invoke \<lparr>opt_command = ''getState'', opt_default = JNull, opt_args = Some [JStr ''theme'']\<rparr>
              1730628000123 ''0.1'']
           (new_VSCodeAPIWrapper (load_page (Some WebviewApi) Map.empty)))"
        "[JStr ''dark'']" None]
    by (simp add: l first_arg_def)
qed

subsection \<open>C7: no callback, no response\<close>

text \<open>
  Claim C7. When the message carries no callback, or the empty string as callback, and
  a handler is registered for the command, the handler is called exactly once with the
  arguments of the message: the host is left as that one call leaves it, and the
  dispatch ends as the call ends. Nothing is posted, however the call ends.
\<close>

theorem dispatch_without_callback:
  assumes "handler_map c = Some h"
    and "cb = None \<or> cb = Some []"
  shows "onDidReceiveMessage handler_map \<lparr>command = c, data = d, callback = cb\<rparr> st =
           (case fst (h (case d of None \<Rightarrow> [] | Some a \<Rightarrow> a) (world st)) of
              Returns res \<Rightarrow> Returns ()
            | Throws e \<Rightarrow> Throws e
            | Never \<Rightarrow> Never,
            st\<lparr>world := snd (h (case d of None \<Rightarrow> [] | Some a \<Rightarrow> a) (world st)),
               invoked := invoked st @ [(c, case d of None \<Rightarrow> [] | Some a \<Rightarrow> a)]\<rparr>) \<and>
         posted (snd (onDidReceiveMessage handler_map \<lparr>command = c, data = d, callback = cb\<rparr> st)) =
           posted st"
  using assms
  by (auto simp add: onDidReceiveMessage_def truthy_def Let_def split: prod.splits outcome.splits)

theorem dispatch_without_callback_witness:
  "onDidReceiveMessage (panel_map id (createProject (\<lambda>data w. (Never, w))))
       \<lparr>command = ''hello'', data = Some [JStr ''world''], callback = Some []\<rparr> fresh_panel =
     (Returns (),
      \<lparr>world = \<lparr>information_messages = [JStr ''world''], open_dialog = None\<rparr>,
       posted = [],
       invoked = [(''hello'', [JStr ''world''])]\<rparr>)"
proof -
  have a1: "panel_map id (createProject (\<lambda>data w. (Never, w))) ''hello'' = Some hello"
    by (simp add: panel_map_def)
  have a2: "Some [] = None \<or> Some [] = Some ([] :: string)" by simp
  from dispatch_without_callback [of "panel_map id (createProject (\<lambda>data w. (Never, w)))"
      "''hello''" hello "Some []" "Some [JStr ''world'']" fresh_panel, OF a1 a2, THEN conjunct1]
  show ?thesis by (simp add: hello_def first_arg_def fresh_panel_def)
qed

subsection \<open>C8: the host channel is acquired once\<close>

text \<open>
  Claim C8. The constructor calls the host function once when it exists and never
  otherwise, and keeps what it got. Nothing in the repository assigns the global or the
  field again, so after any history the number of acquisitions, the field and the
  global are what they were after construction, and every method takes the branch that
  outcome selects: \<^verbatim>\<open>postMessage\<close>, \<^verbatim>\<open>getState\<close> and \<^verbatim>\<open>setState\<close> send to the channel
  exactly when a handle was acquired, and \<^verbatim>\<open>invoke\<close>, which asks the global anew on
  each call, fulfils its promise with the default and sends nothing when there is no
  handle, and sends its request and leaves the promise pending when there is one.
\<close>

theorem acquisition_memoized:
  assumes "s = run stringify parse es (new_VSCodeAPIWrapper (load_page g store))"
  shows "acquire_calls s = (if g = None then 0 else 1) \<and> vsCodeApi s = g \<and> acquireVsCodeApi s = g \<and>
         promises (snd (invoke opts now random s)) (fst (invoke opts now random s)) =
           (if g = None then Some (Fulfilled (opt_default opts)) else None) \<and>
         sent (snd (invoke opts now random s)) =
           (if g = None then sent s
            else sent s @ [\<lparr>command = opt_command opts, data = opt_args opts,
                             callback = Some (new_id now random)\<rparr>]) \<and>
         sent (postMessage m s) = (if g = None then sent s else sent s @ [m]) \<and>
         sent (snd (getState parse key now random s)) =
           (if g = None then sent s
            else sent s @ [\<lparr>command = ''getState'', data = Some [JStr key],
                             callback = Some (new_id now random)\<rparr>]) \<and>
         sent (snd (setState stringify key v now random s)) =
           (if g = None then sent s
            else sent s @ [\<lparr>command = ''setState'', data = Some [JStr key, v],
                             callback = Some (new_id now random)\<rparr>])"
proof -
  have a: "acquire_calls s = (if g = None then 0 else 1)" "vsCodeApi s = g" "acquireVsCodeApi s = g"
    by (simp_all add: assms)
  have i: "promises (snd (invoke opts now random s)) (fst (invoke opts now random s)) =
           (if g = None then Some (Fulfilled (opt_default opts)) else None)"
    "sent (snd (invoke opts now random s)) =
           (if g = None then sent s
            else sent s @ [\<lparr>command = opt_command opts, data = opt_args opts,
                             callback = Some (new_id now random)\<rparr>])"
    by (simp_all add: a invoke_promises invoke_sent)
  have pm: "sent (postMessage m s) = (if g = None then sent s else sent s @ [m])"
    by (simp add: a postMessage_sent)
  have gs: "sent (snd (getState parse key now random s)) =
           (if g = None then sent s
            else sent s @ [\<lparr>command = ''getState'', data = Some [JStr key],
                             callback = Some (new_id now random)\<rparr>])"
  proof (cases "g = None")
    case True
    then show ?thesis using a by (simp add: getState_fallback)
  next
    case False
    then show ?thesis using a by (simp add: getState_channel invoke_sent)
  qed
  have ss: "sent (snd (setState stringify key v now random s)) =
           (if g = None then sent s
            else sent s @ [\<lparr>command = ''setState'', data = Some [JStr key, v],
                             callback = Some (new_id now random)\<rparr>])"
  proof (cases "g = None")
    case True
    then show ?thesis using a by (simp add: setState_fallback)
  next
    case False
    then show ?thesis using a by (simp add: setState_channel invoke_sent)
  qed
  show ?thesis using a i pm gs ss by simp
qed

theorem acquisition_memoized_witness:
  "acquire_calls (run (\<lambda>v. None) (\<lambda>t. Inl (SyntaxError t))
       [GetState ''theme'' 1730628000123 ''0.8437'',
        MessageEvent \<lparr>command = ''hello'', data = Some [JStr ''world''], callback = None\<rparr>]
       (new_VSCodeAPIWrapper (load_page (Some WebviewApi) Map.empty))) = 1 \<and>
   vsCodeApi (run (\<lambda>v. None) (\<lambda>t. Inl (SyntaxError t))
       [GetState ''theme'' 1730628000123 ''0.8437'',
        MessageEvent \<lparr>command = ''hello'', data = Some [JStr ''world''], callback = None\<rparr>]
       (new_VSCodeAPIWrapper (load_page (Some WebviewApi) Map.empty))) = Some WebviewApi \<and>
   sent (snd (invoke \<lparr>opt_command = ''selectPath'', opt_default = JNull, opt_args = None\<rparr>
       1730628000124 ''0.1''
       (run (\<lambda>v. None) (\<lambda>t. Inl (SyntaxError t))
         [GetState ''theme'' 1730628000123 ''0.8437'',
          MessageEvent \<lparr>command = ''hello'', data = Some [JStr ''world''], callback = None\<rparr>]
         (new_VSCodeAPIWrapper (load_page (Some WebviewApi) Map.empty))))) =
     [\<lparr>command = ''getState'', data = Some [JStr ''theme''], callback = Some ''1730628000123_0.8437''\<rparr>,
      \<lparr>command = ''selectPath'', data = None, callback = Some ''1730628000124_0.1''\<rparr>]"
proof -
  let ?es = "[GetState ''theme'' 1730628000123 ''0.8437'',
        MessageEvent \<lparr>command = ''hello'', data = Some [JStr ''world''], callback = None\<rparr>]"
  let ?s = "run (\<lambda>v. None) (\<lambda>t. Inl (SyntaxError t)) ?es
       (new_VSCodeAPIWrapper (load_page (Some WebviewApi) Map.empty))"
  have s: "sent ?s =
     [\<lparr>command = ''getState'', data = Some [JStr ''theme''], callback = Some ''1730628000123_0.8437''\<rparr>]"
    by (simp add: run_def step_def getState_channel invoke_sent new_id_def number_text_def
        decimal.simps digit_simps)
  have n: "new_id 1730628000124 ''0.1'' = ''1730628000124_0.1''"
    by (simp add: new_id_def number_text_def decimal.simps digit_simps)
  from acquisition_memoized [of ?s "\<lambda>v. None" "\<lambda>t. Inl (SyntaxError t)" ?es "Some WebviewApi"
      Map.empty "\<lparr>opt_command = ''selectPath'', opt_default = JNull, opt_args = None\<rparr>"
      1730628000124 "''0.1''", OF refl]
  show ?thesis by (simp add: s n)
qed

text \<open>
  The agreement rests on the global staying what it was: \<^verbatim>\<open>invoke\<close> reads the global,
  the other methods read the field. On a page where the function exists and the field is
  empty, which no history reaches, \<^verbatim>\<open>invoke\<close> attaches its listener and the request is
  logged instead of sent.
\<close>

lemma invoke_reads_the_global:
  assumes "acquireVsCodeApi s = Some api" and "vsCodeApi s = None"
  shows "sent (snd (invoke opts now random s)) = sent s \<and>
         console (snd (invoke opts now random s)) =
           console s @ [\<lparr>command = opt_command opts, data = opt_args opts,
                           callback = Some (new_id now random)\<rparr>] \<and>
         promises (snd (invoke opts now random s)) (fst (invoke opts now random s)) = None"
  using assms by (simp add: invoke_sent invoke_promises)

subsection \<open>C9: the fallback store\<close>

text \<open>
  Claim C9. On a page without a host channel, after any history, let \<open>v\<close> be a value
  that the platform's \<^verbatim>\<open>JSON.stringify\<close> writes as a text \<open>t\<close>, which is never empty,
  and that \<^verbatim>\<open>JSON.parse\<close> reads back from \<open>t\<close>. Then \<^verbatim>\<open>setState(k, v)\<close> stores \<open>t\<close>
  under \<open>k\<close> in the local storage, a following \<^verbatim>\<open>getState(k)\<close> is fulfilled with
  \<open>v\<close>, and neither call sends anything to the channel, logs a message or adds a
  listener.
\<close>

theorem fallback_store_round_trip:
  assumes "s = run stringify parse es (new_VSCodeAPIWrapper (load_page None store))"
    and "stringify v = Some t" and "t \<noteq> []" and "parse t = Inr v"
    and "setState stringify k v now random s = (p1, s1)"
    and "getState parse k now' random' s1 = (p2, s2)"
  shows "localStorage s1 k = Some t \<and> promises s2 p2 = Some (Fulfilled v) \<and>
         sent s1 = sent s \<and> sent s2 = sent s \<and> console s2 = console s \<and> listeners s2 = listeners s"
proof -
  have g: "vsCodeApi s = None" by (simp add: assms(1))
  have s1: "s1 = snd (setState stringify k v now random s)"
    using assms(5) by simp
  have g1: "vsCodeApi s1 = None" by (simp add: s1 g)
  have p2: "p2 = next_promise s1" and s2: "s2 = snd (getState parse k now' random' s1)"
    using assms(6) getState_frame(6) [of parse k now' random' s1] by simp_all
  have st: "localStorage s1 k = Some t"
    by (simp add: s1 setState_fallback [OF g] assms(2))
  have "promises s2 p2 = Some (Fulfilled v)"
    by (simp add: s2 p2 getState_fallback [OF g1] st assms(3,4))
  moreover have "sent s2 = sent s1" "console s2 = console s1" "listeners s2 = listeners s1"
    by (simp_all add: s2 getState_fallback [OF g1])
  moreover have "sent s1 = sent s" "console s1 = console s" "listeners s1 = listeners s"
    by (simp_all add: s1 setState_fallback [OF g])
  ultimately show ?thesis using st by simp
qed

theorem fallback_store_round_trip_witness:
  "localStorage
     (snd (setState (\<lambda>v. if v = JNum 42 then Some ''42'' else None) ''fontSize'' (JNum 42)
        1730628000123 ''0.8437'' (new_VSCodeAPIWrapper (load_page None Map.empty)))) ''fontSize'' =
     Some ''42'' \<and>
   promises
     (snd (getState (\<lambda>t. if t = ''42'' then Inr (JNum 42) else Inl (SyntaxError t)) ''fontSize''
        1730628000124 ''0.1''
        (snd (setState (\<lambda>v. if v = JNum 42 then Some ''42'' else None) ''fontSize'' (JNum 42)
           1730628000123 ''0.8437'' (new_VSCodeAPIWrapper (load_page None Map.empty)))))) 1 =
     Some (Fulfilled (JNum 42)) \<and>
   sent
     (snd (getState (\<lambda>t. if t = ''42'' then Inr (JNum 42) else Inl (SyntaxError t)) ''fontSize''
        1730628000124 ''0.1''
        (snd (setState (\<lambda>v. if v = JNum 42 then Some ''42'' else None) ''fontSize'' (JNum 42)
           1730628000123 ''0.8437'' (new_VSCodeAPIWrapper (load_page None Map.empty)))))) = []"
  using fallback_store_round_trip [of
      "new_VSCodeAPIWrapper (load_page None Map.empty)"
      "\<lambda>v. if v = JNum 42 then Some ''42'' else None"
      "\<lambda>t. if t = ''42'' then Inr (JNum 42) else Inl (SyntaxError t)" "[]" Map.empty
      "JNum 42" "''42''" "''fontSize''" 1730628000123 "''0.8437''" 0
      "snd (setState (\<lambda>v. if v = JNum 42 then Some ''42'' else None) ''fontSize'' (JNum 42)
           1730628000123 ''0.8437'' (new_VSCodeAPIWrapper (load_page None Map.empty)))"
      1730628000124 "''0.1''" 1
      "snd (getState (\<lambda>t. if t = ''42'' then Inr (JNum 42) else Inl (SyntaxError t)) ''fontSize''
        1730628000124 ''0.1''
        (snd (setState (\<lambda>v. if v = JNum 42 then Some ''42'' else None) ''fontSize'' (JNum 42)
           1730628000123 ''0.8437'' (new_VSCodeAPIWrapper (load_page None Map.empty)))))"]
  by (simp add: run_def prod_eq_iff)

subsection \<open>C10: an absent data field\<close>

text \<open>
  Claim C10, as the code has it. A message without a data field is dispatched exactly
  as the same message with the empty argument list, whatever the command and the
  callback. So for a registered command and a callback token \<open>t\<close> that is not empty the
  handler is called once with no arguments; when that call returns \<open>res\<close>,
  \<^verbatim>\<open>{command: t, data: [res]}\<close> is posted, and when it throws or never settles nothing
  is posted.
\<close>

theorem dispatch_absent_data:
  "onDidReceiveMessage handler_map \<lparr>command = c, data = None, callback = cb\<rparr> st =
     onDidReceiveMessage handler_map \<lparr>command = c, data = Some [], callback = cb\<rparr> st \<and>
   (handler_map c = Some h \<longrightarrow> t \<noteq> [] \<longrightarrow>
      onDidReceiveMessage handler_map \<lparr>command = c, data = None, callback = Some t\<rparr> st =
        (case h [] (world st) of
           (Returns res, w) \<Rightarrow>
             (Returns (),
              st\<lparr>world := w, invoked := invoked st @ [(c, [])],
                 posted := posted st @ [\<lparr>command = t, data = Some [res], callback = None\<rparr>]\<rparr>)
         | (Throws e, w) \<Rightarrow> (Throws e, st\<lparr>world := w, invoked := invoked st @ [(c, [])]\<rparr>)
         | (Never, w) \<Rightarrow> (Never, st\<lparr>world := w, invoked := invoked st @ [(c, [])]\<rparr>)))"
proof
  show "onDidReceiveMessage handler_map \<lparr>command = c, data = None, callback = cb\<rparr> st =
     onDidReceiveMessage handler_map \<lparr>command = c, data = Some [], callback = cb\<rparr> st"
    by (simp add: onDidReceiveMessage_def Let_def split: option.split prod.split outcome.split)
  show "handler_map c = Some h \<longrightarrow> t \<noteq> [] \<longrightarrow>
      onDidReceiveMessage handler_map \<lparr>command = c, data = None, callback = Some t\<rparr> st =
        (case h [] (world st) of
           (Returns res, w) \<Rightarrow>
             (Returns (),
              st\<lparr>world := w, invoked := invoked st @ [(c, [])],
                 posted := posted st @ [\<lparr>command = t, data = Some [res], callback = None\<rparr>]\<rparr>)
         | (Throws e, w) \<Rightarrow> (Throws e, st\<lparr>world := w, invoked := invoked st @ [(c, [])]\<rparr>)
         | (Never, w) \<Rightarrow> (Never, st\<lparr>world := w, invoked := invoked st @ [(c, [])]\<rparr>))"
    by (simp add: onDidReceiveMessage_def truthy_def Let_def split: prod.split outcome.split)
qed

theorem dispatch_absent_data_witness:
  "onDidReceiveMessage (panel_map id (createProject (\<lambda>data w. (Never, w))))
       \<lparr>command = ''selectPath'', data = None, callback = Some ''1730628000123_0.8437''\<rparr>
       fresh_panel =
     (Returns (),
      \<lparr>world = \<lparr>information_messages = [JUndefined], open_dialog = None\<rparr>,
       posted = [\<lparr>command = ''1730628000123_0.8437'', data = Some [JNull], callback = None\<rparr>],
       invoked = [(''selectPath'', [])]\<rparr>)"
proof -
  have a1: "panel_map id (createProject (\<lambda>data w. (Never, w))) ''selectPath'' = Some (selectPath id)"
    by (simp add: panel_map_def)
  have a2: "''1730628000123_0.8437'' \<noteq> []" by simp
  from dispatch_absent_data [of "panel_map id (createProject (\<lambda>data w. (Never, w)))"
      "''selectPath''" None fresh_panel "selectPath id" "''1730628000123_0.8437''",
      THEN conjunct2, rule_format, OF a1 a2]
  show ?thesis by (simp add: selectPath_def first_arg_def fresh_panel_def)
qed

text \<open>
  \<^verbatim>\<open>createProject\<close> is registered. Dispatched without a data field it is called with no
  arguments, throws on reading \<^verbatim>\<open>data.location\<close>, and nothing is posted.
\<close>

theorem dispatch_absent_data_throws_counterexample:
  "onDidReceiveMessage (panel_map id (createProject (\<lambda>data w. (Never, w))))
       \<lparr>command = ''createProject'', data = None, callback = Some ''1730628000123_0.8437''\<rparr>
       fresh_panel =
     (Throws (TypeError ''Cannot read properties of undefined''),
      \<lparr>world = \<lparr>information_messages = [], open_dialog = None\<rparr>,
       posted = [],
       invoked = [(''createProject'', [])]\<rparr>)"
  by (simp add: onDidReceiveMessage_def panel_map_def createProject_def first_arg_def
      fresh_panel_def Let_def)

end
